theory Spec2Isabelle
  imports Main "HOL-Library.Word" "HOL-Library.While_Combinator"
begin

section \<open>Strings of the platform\<close>

text \<open>
  A JavaScript string is a sequence of UTF-16 code units: \<open>text.length\<close>, \<open>text[i]\<close>,
  \<open>substring\<close>, \<open>split\<close> and \<open>===\<close> all work on code units. String literals of the
  source are ASCII and are written with \<open>js\<close>.
\<close>

type_synonym jschar = "16 word"
type_synonym jsstring = "jschar list"

definition js :: "string \<Rightarrow> jsstring" where
  "js s = map of_char s"

definition CR :: jschar where
  "CR = 0x0D"

definition LF :: jschar where
  "LF = 0x0A"

text \<open>
  \<open>text.substring(a, b)\<close> for \<open>a \<le> b\<close>, both clamped to the length by the platform;
  \<open>text.substring(a)\<close> runs to the end.
\<close>

definition substring :: "jsstring \<Rightarrow> nat \<Rightarrow> nat \<Rightarrow> jsstring" where
  "substring s a b = take (b - a) (drop a s)"

definition substring_from :: "jsstring \<Rightarrow> nat \<Rightarrow> jsstring" where
  "substring_from s a = drop a s"

text \<open>
  The character class \<open>\s\<close> of a regular expression without flags: the WhiteSpace and
  LineTerminator code points of ECMAScript.
\<close>

definition isWhitespace :: "jschar \<Rightarrow> bool" where
  "isWhitespace c \<longleftrightarrow>
     c = 0x09 \<or> c = 0x0A \<or> c = 0x0B \<or> c = 0x0C \<or> c = 0x0D \<or> c = 0x20 \<or>
     c = 0xA0 \<or> c = 0x1680 \<or> (0x2000 \<le> c \<and> c \<le> 0x200A) \<or>
     c = 0x2028 \<or> c = 0x2029 \<or> c = 0x202F \<or> c = 0x205F \<or> c = 0x3000 \<or>
     c = 0xFEFF"

text \<open>
  \<open>text.split(/(\s+)/)\<close>. The platform scans the string from the left; at a position
  where \<open>\s+\<close> matches it takes the longest run of whitespace, emits the text since the
  previous match, then the run itself (the capture group), and goes on after the run.
  The text after the last match is emitted at the end, so the result is never empty:
  the empty string gives one empty word. The accumulator is the text since the previous
  match.
\<close>

function split_loop :: "jsstring \<Rightarrow> jsstring \<Rightarrow> jsstring list" where
  "split_loop acc [] = [acc]"
| "split_loop acc (c # cs) =
     (if isWhitespace c
      then acc # (c # takeWhile isWhitespace cs) # split_loop [] (dropWhile isWhitespace cs)
      else split_loop (acc @ [c]) cs)"
  by pat_completeness auto
termination
  by (relation "measure (\<lambda>(acc, s). length s)")
     (auto simp: length_dropWhile_le less_Suc_eq_le)

definition split_ws :: "jsstring \<Rightarrow> jsstring list" where
  "split_ws s = split_loop [] s"

text \<open>
  \<open>word.toUpperCase()\<close>. The ASCII letters are mapped as the platform maps them. A code
  unit outside ASCII is kept here; the platform maps some of them to other code units,
  none of them to the digit \<open>0\<close>, and none of them to the single letter \<open>A\<close> or \<open>D\<close>.
  The source only compares the result with \<open>0D\<close> and \<open>0A\<close>, and these comparisons come
  out as on the platform.
\<close>

definition toUpperCase_unit :: "jschar \<Rightarrow> jschar" where
  "toUpperCase_unit c = (if 0x61 \<le> c \<and> c \<le> 0x7A then c - 0x20 else c)"

definition toUpperCase :: "jsstring \<Rightarrow> jsstring" where
  "toUpperCase s = map toUpperCase_unit s"

section \<open>Types of the message log\<close>

datatype DataFormat = Hex | Binary | Ascii | Decimal | Utf8 | Base64

datatype LineEnding = NoLineEnding | CrEnding | LfEnding | CrLfEnding | CustomEnding

section \<open>The line-ending highlighter\<close>

text \<open>
  What the highlighter returns: the text itself, or an array of parts, each a plain string
  or a \<open>span\<close> element with its key, its style, its title and its text.
\<close>

record span =
  key :: nat
  backgroundColor :: string
  color :: string
  padding :: string
  borderRadius :: string
  fontWeight :: nat
  title :: string
  children :: jsstring

datatype part = Plain jsstring | Span span

datatype ReactNode = Text jsstring | Parts "part list"

definition backslash :: char where
  "backslash = CHR 0x5C"

text \<open>The element pushed in the \<open>hex\<close> branch: the word itself is the content.\<close>

definition hex_span :: "nat \<Rightarrow> bool \<Rightarrow> jsstring \<Rightarrow> span" where
  "hex_span i isCR word =
     \<lparr>key = i,
      backgroundColor =
        (if isCR then ''var(--mantine-color-orange-2)'' else ''var(--mantine-color-cyan-2)''),
      color =
        (if isCR then ''var(--mantine-color-orange-9)'' else ''var(--mantine-color-cyan-9)''),
      padding = ''2px 4px'',
      borderRadius = ''3px'',
      fontWeight = 600,
      title =
        (if isCR then ''Carriage Return (CR, '' @ [backslash] @ ''r, 0x0D)''
         else ''Line Feed (LF, '' @ [backslash] @ ''n, 0x0A)''),
      children = word\<rparr>"

text \<open>
  The element pushed in the \<open>ascii\<close>/\<open>utf8\<close> branch: the content is the two-character
  escape, a backslash and a letter.
\<close>

definition char_span :: "nat \<Rightarrow> bool \<Rightarrow> span" where
  "char_span i isCR =
     \<lparr>key = i,
      backgroundColor =
        (if isCR then ''var(--mantine-color-orange-2)'' else ''var(--mantine-color-cyan-2)''),
      color =
        (if isCR then ''var(--mantine-color-orange-9)'' else ''var(--mantine-color-cyan-9)''),
      padding = ''2px 4px'',
      borderRadius = ''3px'',
      fontWeight = 600,
      title =
        (if isCR then ''Carriage Return (CR, '' @ [backslash] @ ''r)''
         else ''Line Feed (LF, '' @ [backslash] @ ''n)''),
      children = (if isCR then js ([backslash] @ ''r'') else js ([backslash] @ ''n''))\<rparr>"

text \<open>
  The loop of the \<open>hex\<close> branch, over the state \<open>(i, parts)\<close>. A loop is run by
  \<open>while_option\<close>, whose value is \<open>None\<close> when the loop does not end.
\<close>

definition hex_body :: "jsstring list \<Rightarrow> nat \<times> part list \<Rightarrow> nat \<times> part list" where
  "hex_body words = (\<lambda>(i, parts).
     let word = words ! i;
         upperWord = toUpperCase word
     in if upperWord = js ''0D'' \<or> upperWord = js ''0A''
        then (let isCR = (upperWord = js ''0D'')
              in (i + 1, parts @ [Span (hex_span i isCR word)]))
        else (i + 1, parts @ [Plain word]))"

definition hex_loop :: "jsstring list \<Rightarrow> (nat \<times> part list) option" where
  "hex_loop words = while_option (\<lambda>(i, parts). i < length words) (hex_body words) (0, [])"

text \<open>The loop of the \<open>ascii\<close>/\<open>utf8\<close> branch, over the state \<open>(i, lastIndex, parts)\<close>.\<close>

definition text_body :: "jsstring \<Rightarrow> nat \<times> nat \<times> part list \<Rightarrow> nat \<times> nat \<times> part list" where
  "text_body text = (\<lambda>(i, lastIndex, parts).
     let char = text ! i
     in if char = CR \<or> char = LF
        then (let parts1 = (if i > lastIndex
                            then parts @ [Plain (substring text lastIndex i)] else parts);
                  isCR = (char = CR);
                  parts2 = parts1 @ [Span (char_span i isCR)]
              in (i + 1, i + 1, parts2))
        else (i + 1, lastIndex, parts))"

definition text_loop :: "jsstring \<Rightarrow> (nat \<times> nat \<times> part list) option" where
  "text_loop text =
     while_option (\<lambda>(i, lastIndex, parts). i < length text) (text_body text) (0, 0, [])"

definition highlightLineEndings :: "jsstring \<Rightarrow> DataFormat \<Rightarrow> ReactNode option" where
  "highlightLineEndings text format =
     (if format = Hex then
        (case hex_loop (split_ws text) of
           None \<Rightarrow> None
         | Some (i, parts) \<Rightarrow> Some (if length parts > 0 then Parts parts else Text text))
      else if format = Ascii \<or> format = Utf8 then
        (case text_loop text of
           None \<Rightarrow> None
         | Some (i, lastIndex, parts) \<Rightarrow>
             (let parts' = (if lastIndex < length text
                            then parts @ [Plain (substring_from text lastIndex)] else parts)
              in Some (if length parts' > 0 then Parts parts' else Text text)))
      else Some (Text text))"

subsection \<open>Reading the result\<close>

text \<open>
  The parts of a result (a result that is the text itself is one plain part), the
  elements and the plain strings among them, the text a part shows, and the text of the
  input a part stands for: a plain part stands for itself, an element with key \<open>k\<close> for
  the code unit at index \<open>k\<close>.
\<close>

fun node_parts :: "ReactNode \<Rightarrow> part list" where
  "node_parts (Text s) = [Plain s]"
| "node_parts (Parts ps) = ps"

fun spans_of :: "part list \<Rightarrow> span list" where
  "spans_of [] = []"
| "spans_of (Plain s # ps) = spans_of ps"
| "spans_of (Span e # ps) = e # spans_of ps"

fun plains_of :: "part list \<Rightarrow> jsstring list" where
  "plains_of [] = []"
| "plains_of (Plain s # ps) = s # plains_of ps"
| "plains_of (Span e # ps) = plains_of ps"

fun part_text :: "part \<Rightarrow> jsstring" where
  "part_text (Plain s) = s"
| "part_text (Span e) = children e"

definition node_text :: "ReactNode \<Rightarrow> jsstring" where
  "node_text n = concat (map part_text (node_parts n))"

fun part_source :: "jsstring \<Rightarrow> part \<Rightarrow> jsstring" where
  "part_source text (Plain s) = s"
| "part_source text (Span e) = [text ! key e]"

text \<open>
  The text a part stands for, read from the part itself: an element that shows the escape
  of CR or of LF stands for that code unit.
\<close>

fun part_unescaped :: "part \<Rightarrow> jsstring" where
  "part_unescaped (Plain s) = s"
| "part_unescaped (Span e) =
     (if children e = js ([backslash] @ ''r'') then [CR]
      else if children e = js ([backslash] @ ''n'') then [LF]
      else children e)"

text \<open>The two-character escape that stands for CR and for LF; any other code unit is itself.\<close>

definition escape :: "jschar \<Rightarrow> jsstring" where
  "escape c = (if c = CR then js ([backslash] @ ''r'')
               else if c = LF then js ([backslash] @ ''n'') else [c])"

text \<open>What one round of the \<open>hex\<close> loop pushes for the word at index \<open>i\<close>.\<close>

definition hex_part :: "nat \<Rightarrow> jsstring \<Rightarrow> part" where
  "hex_part i word =
     (if toUpperCase word = js ''0D'' \<or> toUpperCase word = js ''0A''
      then Span (hex_span i (toUpperCase word = js ''0D'') word)
      else Plain word)"

text \<open>
  What the \<open>ascii\<close>/\<open>utf8\<close> branch has still to push when it stands at index \<open>i\<close> with
  the run \<open>run\<close> of ordinary code units behind it and the text \<open>s\<close> before it.
\<close>

fun text_parts :: "nat \<Rightarrow> jsstring \<Rightarrow> jsstring \<Rightarrow> part list" where
  "text_parts i run [] = (if run = [] then [] else [Plain run])"
| "text_parts i run (c # cs) =
     (if c = CR \<or> c = LF
      then (if run = [] then [] else [Plain run]) @
           Span (char_span i (c = CR)) # text_parts (Suc i) [] cs
      else text_parts (Suc i) (run @ [c]) cs)"

definition text_inv :: "jsstring \<Rightarrow> nat \<times> nat \<times> part list \<Rightarrow> bool" where
  "text_inv text = (\<lambda>(i, lastIndex, parts). lastIndex \<le> i \<and> i \<le> length text \<and>
      parts @ text_parts i (substring text lastIndex i) (drop i text) = text_parts 0 [] text)"

text \<open>
  A list of words and separators as \<open>split\<close> gives it: words without whitespace and
  non-empty runs of whitespace in turn, from a word to a word, no word between two
  separators empty.
\<close>

fun separated :: "jsstring list \<Rightarrow> bool" where
  "separated [] = False"
| "separated [w] = (\<forall>c\<in>set w. \<not> isWhitespace c)"
| "separated (w # sep # rest) =
     ((\<forall>c\<in>set w. \<not> isWhitespace c) \<and> sep \<noteq> [] \<and> (\<forall>c\<in>set sep. isWhitespace c) \<and>
      (length rest > 1 \<longrightarrow> hd rest \<noteq> []) \<and> separated rest)"

section \<open>The message item\<close>

datatype MessageType = Sent | Received

record SerialMessage =
  id_field :: jsstring
  type_field :: MessageType
  data :: "8 word list"
  timestamp :: int
  format :: DataFormat
  displayText :: jsstring
  originalData :: "jsstring option"

record SerialConnectionConfig =
  baudRate :: int
  lineEnding :: LineEnding
  customLineEnding :: "jsstring option"
  readUntilLineEnding :: "bool option"
  readLineEnding :: "LineEnding option"
  readCustomLineEnding :: "jsstring option"

text \<open>
  The props of the item. An optional prop is an \<open>option\<close>. The callback \<open>onResend\<close> is a
  function of its three arguments; its value, of type \<open>'c\<close>, is the call it makes.
\<close>

record 'c MessageItemProps =
  message :: SerialMessage
  onResend :: "(jsstring \<Rightarrow> DataFormat \<Rightarrow> SerialConnectionConfig \<Rightarrow> 'c) option"
  isConnected :: "bool option"
  currentConfig :: "SerialConnectionConfig option"
  displayFormat :: "DataFormat option"

text \<open>
  What a handler of the item can reach: the props it was rendered with, the state
  \<open>isHovered\<close> of the component, the clipboard, the console, whether the event at hand has
  been stopped, and the calls made to \<open>onResend\<close>. An error value is of type \<open>'x\<close>.
\<close>

record ('x, 'c) World =
  props :: "'c MessageItemProps"
  isHovered :: bool
  clipboardText :: "jsstring option"
  console :: "(string \<times> 'x) list"
  propagationStopped :: bool
  resendCalls :: "'c list"

text \<open>
  \<open>bytesToString\<close> is imported from the format converter, which is not among the
  sources: it is the parameter \<open>b2s\<close>, a function from the bytes and the format to the
  display string.
\<close>

type_synonym bytesToString = "8 word list \<Rightarrow> DataFormat \<Rightarrow> jsstring"

text \<open>
  Truthiness of the operands of \<open>&&\<close> and \<open>||\<close>: an absent value, \<open>false\<close> and the empty
  string are falsy; an object, a function and the name of a format are truthy. The values
  the component keeps with \<open>useMemo\<close> and \<open>useCallback\<close> list everything they read as
  dependencies, so each is what its function gives on the current props; they are
  functions of the props here. \<open>canResend\<close> is only ever tested, so it is its truthiness.
\<close>

definition truthy_bool :: "bool option \<Rightarrow> bool" where
  "truthy_bool b = (b = Some True)"

definition truthy_string :: "jsstring option \<Rightarrow> bool" where
  "truthy_string s = (case s of None \<Rightarrow> False | Some t \<Rightarrow> t \<noteq> [])"

definition truthy_object :: "'a option \<Rightarrow> bool" where
  "truthy_object v = (case v of None \<Rightarrow> False | Some x \<Rightarrow> True)"

definition formatToUse :: "'c MessageItemProps \<Rightarrow> DataFormat" where
  "formatToUse p = (case displayFormat p of Some f \<Rightarrow> f | None \<Rightarrow> format (message p))"

definition displayText_memo :: "bytesToString \<Rightarrow> 'c MessageItemProps \<Rightarrow> jsstring" where
  "displayText_memo b2s p = b2s (data (message p)) (formatToUse p)"

definition highlightedText :: "bytesToString \<Rightarrow> 'c MessageItemProps \<Rightarrow> ReactNode option" where
  "highlightedText b2s p = highlightLineEndings (displayText_memo b2s p) (formatToUse p)"

definition isSent :: "'c MessageItemProps \<Rightarrow> bool" where
  "isSent p = (type_field (message p) = Sent)"

definition canResend :: "'c MessageItemProps \<Rightarrow> bool" where
  "canResend p =
     (isSent p \<and> truthy_bool (isConnected p) \<and> truthy_string (originalData (message p)) \<and>
      truthy_object (onResend p) \<and> truthy_object (currentConfig p))"

definition handleClick :: "('x, 'c) World \<Rightarrow> ('x, 'c) World" where
  "handleClick w =
     (let p = props w in
      if canResend p \<and> truthy_string (originalData (message p)) \<and>
         truthy_object (onResend p) \<and> truthy_object (currentConfig p)
      then (case (onResend p, originalData (message p), currentConfig p) of
              (Some f, Some d, Some c) \<Rightarrow>
                w\<lparr>resendCalls := resendCalls w @ [f d (format (message p)) c]\<rparr>
            | _ \<Rightarrow> w)
      else w)"

text \<open>The \<open>onClick\<close> of the outer box: \<open>handleClick\<close> when \<open>canResend\<close>, no handler otherwise.\<close>

definition onClick :: "('x, 'c) World \<Rightarrow> ('x, 'c) World" where
  "onClick w = (if canResend (props w) then handleClick w else w)"

definition onMouseEnter :: "('x, 'c) World \<Rightarrow> ('x, 'c) World" where
  "onMouseEnter w = w\<lparr>isHovered := True\<rparr>"

definition onMouseLeave :: "('x, 'c) World \<Rightarrow> ('x, 'c) World" where
  "onMouseLeave w = w\<lparr>isHovered := False\<rparr>"

text \<open>
  An operation that can throw (or reject) has a result of type \<open>'x + 'a\<close>, the error on
  the left. \<open>try_catch\<close> runs the handler on the error of the body. The clipboard of the
  platform is the parameter \<open>writeText\<close>: for a text, the error the write fails with, or
  none; a write that fails leaves the clipboard as it was. \<open>e.stopPropagation()\<close>, before
  the \<open>try\<close>, sets the flag of the event and does not throw, and neither does
  \<open>console.error\<close>.
\<close>

fun try_catch :: "'x + 'a \<Rightarrow> ('x \<Rightarrow> 'x + 'a) \<Rightarrow> 'x + 'a" where
  "try_catch (Inr v) h = Inr v"
| "try_catch (Inl e) h = h e"

definition clipboard_writeText ::
    "(jsstring \<Rightarrow> 'x option) \<Rightarrow> jsstring \<Rightarrow> ('x, 'c) World \<Rightarrow> 'x + ('x, 'c) World" where
  "clipboard_writeText writeText text w =
     (case writeText text of
        None \<Rightarrow> Inr (w\<lparr>clipboardText := Some text\<rparr>)
      | Some err \<Rightarrow> Inl err)"

definition console_error :: "string \<Rightarrow> 'x \<Rightarrow> ('x, 'c) World \<Rightarrow> 'x + ('x, 'c) World" where
  "console_error msg err w = Inr (w\<lparr>console := console w @ [(msg, err)]\<rparr>)"

definition handleCopy ::
    "(jsstring \<Rightarrow> 'x option) \<Rightarrow> bytesToString \<Rightarrow> ('x, 'c) World \<Rightarrow> 'x + ('x, 'c) World" where
  "handleCopy writeText b2s w =
     (let w1 = w\<lparr>propagationStopped := True\<rparr>
      in try_catch (clipboard_writeText writeText (displayText_memo b2s (props w)) w1)
                   (\<lambda>err. console_error ''[MessageHistory] Failed to copy:'' err w1))"

text \<open>
  What the item renders, as far as it depends on the props and the state: whether the
  box has a click handler, its cursor, the direction of the arrow, the background and the
  content of the code block, and the opacity and pointer events of the copy button. The
  time label, the platform's rendering of \<open>message.timestamp\<close> in the local format, and
  the fixed layout are left out.
\<close>

record View =
  clickable :: bool
  cursor :: string
  arrowLeft :: bool
  codeBackground :: string
  content :: ReactNode
  copyOpacity :: nat
  copyPointerEvents :: string

definition render :: "bytesToString \<Rightarrow> ('x, 'c) World \<Rightarrow> View option" where
  "render b2s w =
     (let p = props w in
      case highlightedText b2s p of
        None \<Rightarrow> None
      | Some node \<Rightarrow>
          Some \<lparr>clickable = canResend p,
                cursor = (if canResend p then ''pointer'' else ''default''),
                arrowLeft = isSent p,
                codeBackground =
                  (if isSent p then ''var(--mantine-color-blue-0)''
                   else ''var(--mantine-color-green-0)''),
                content = node,
                copyOpacity = (if isHovered w then 1 else 0),
                copyPointerEvents = (if isHovered w then ''auto'' else ''none'')\<rparr>)"

subsection \<open>Rendering in the world\<close>

text \<open>
  The byte array of the message is handed to \<open>bytesToString\<close> by reference. To follow
  what the callee does to it, a converter gives the display string together with the
  bytes the array holds after the call. One rendering of the component calls the
  converter on the array of the message, with the format to use, and returns the view;
  the world after it has the array as the converter left it.
\<close>

type_synonym converter = "8 word list \<Rightarrow> DataFormat \<Rightarrow> jsstring \<times> 8 word list"

definition MessageItemComponent ::
    "converter \<Rightarrow> ('x, 'c) World \<Rightarrow> (View \<times> ('x, 'c) World) option" where
  "MessageItemComponent conv w =
     (let p = props w;
          m = message p;
          bytes = snd (conv (data m) (formatToUse p));
          w' = w\<lparr>props := p\<lparr>message := m\<lparr>data := bytes\<rparr>\<rparr>\<rparr>
      in case render (\<lambda>b f. fst (conv b f)) w of
           None \<Rightarrow> None
         | Some v \<Rightarrow> Some (v, w'))"

subsection \<open>The highlighter as a run in the world\<close>




subsection \<open>An item to run the handlers on\<close>

text \<open>
  A sent message with the bytes \<open>41 0D\<close>, typed as \<open>A\<close> and logged in the \<open>ascii\<close>
  format, shown in the \<open>hex\<close> format on an open connection; the callback records its
  arguments. The converter is given on the bytes of this message only.
\<close>

definition example_message :: SerialMessage where
  "example_message =
     \<lparr>id_field = js ''m1'', type_field = Sent, data = [0x41, 0x0D], timestamp = 0,
      format = Ascii, displayText = [0x41, CR], originalData = Some (js ''A'')\<rparr>"

definition example_config :: SerialConnectionConfig where
  "example_config =
     \<lparr>baudRate = 9600, lineEnding = CrEnding, customLineEnding = None,
      readUntilLineEnding = None, readLineEnding = None, readCustomLineEnding = None\<rparr>"

definition example_props ::
    "(jsstring \<times> DataFormat \<times> SerialConnectionConfig) MessageItemProps" where
  "example_props =
     \<lparr>message = example_message, onResend = Some (\<lambda>d f c. (d, f, c)),
      isConnected = Some True, currentConfig = Some example_config,
      displayFormat = Some Hex\<rparr>"

definition example_world ::
    "(string, jsstring \<times> DataFormat \<times> SerialConnectionConfig) World" where
  "example_world =
     \<lparr>props = example_props, isHovered = False, clipboardText = None, console = [],
      propagationStopped = False, resendCalls = []\<rparr>"

definition example_b2s :: bytesToString where
  "example_b2s bytes fmt = (if fmt = Hex then js ''41 0d'' else [0x41, CR])"

definition example_converter :: converter where
  "example_converter bytes fmt = (example_b2s bytes fmt, bytes)"

section \<open>Properties of the platform functions\<close>

subsection \<open>\<open>split\<close>\<close>

lemma concat_split_loop: "concat (split_loop acc s) = acc @ s"
  by (induction acc s rule: split_loop.induct) auto

lemma hd_split_loop: "hd (split_loop acc s) = acc @ takeWhile (\<lambda>c. \<not> isWhitespace c) s"
  by (induction acc s rule: split_loop.induct) auto

lemma split_loop_ne: "split_loop acc s \<noteq> []"
  by (induction acc s rule: split_loop.induct) auto

lemma length_split_loop_gt1: "1 < length (split_loop acc s) \<Longrightarrow> \<exists>c\<in>set s. isWhitespace c"
  by (induction acc s rule: split_loop.induct) (auto split: if_splits)

lemma separated_split_loop:
  "\<forall>c\<in>set acc. \<not> isWhitespace c \<Longrightarrow> separated (split_loop acc s)"
proof (induction acc s rule: split_loop.induct)
  case (1 acc)
  then show ?case by simp
next
  case (2 acc c cs)
  show ?case
  proof (cases "isWhitespace c")
    case True
    let ?rest = "dropWhile isWhitespace cs"
    have "separated (split_loop [] ?rest)" using 2 True by simp
    moreover have "1 < length (split_loop [] ?rest) \<longrightarrow> hd (split_loop [] ?rest) \<noteq> []"
    proof
      assume that: "1 < length (split_loop [] ?rest)"
      from length_split_loop_gt1[OF that] obtain x where "x \<in> set ?rest" by blast
      then have "?rest \<noteq> []" by (metis empty_iff empty_set)
      then have "\<not> isWhitespace (hd ?rest)" by (rule hd_dropWhile)
      with \<open>?rest \<noteq> []\<close> show "hd (split_loop [] ?rest) \<noteq> []"
        by (cases ?rest) (auto simp: hd_split_loop)
    qed
    moreover have "\<forall>x\<in>set (takeWhile isWhitespace cs). isWhitespace x"
      by (auto dest: set_takeWhileD)
    moreover have "\<forall>x\<in>set acc. \<not> isWhitespace x" using 2 by simp
    moreover have "split_loop acc (c # cs) =
        acc # (c # takeWhile isWhitespace cs) # split_loop [] ?rest"
      using True by simp
    ultimately show ?thesis using True
      by (simp only: separated.simps) auto
  next
    case False
    then show ?thesis using 2 by simp
  qed
qed

lemma separated_nth:
  "separated ws \<Longrightarrow> i < length ws \<Longrightarrow>
     (even i \<longrightarrow> (\<forall>c\<in>set (ws ! i). \<not> isWhitespace c)) \<and>
     (odd i \<longrightarrow> ws ! i \<noteq> [] \<and> (\<forall>c\<in>set (ws ! i). isWhitespace c)) \<and>
     (even i \<and> 0 < i \<and> Suc i < length ws \<longrightarrow> ws ! i \<noteq> [])"
proof (induction ws arbitrary: i rule: separated.induct)
  case 1
  then show ?case by simp
next
  case (2 w)
  then show ?case by simp
next
  case (3 w sep rest)
  show ?case
  proof (cases i)
    case 0
    then show ?thesis using 3 by simp
  next
    case (Suc j)
    show ?thesis
    proof (cases j)
      case 0
      then show ?thesis using 3 Suc by simp
    next
      case (Suc k)
      have k: "k < length rest" using 3 \<open>i = Suc j\<close> Suc by simp
      from 3 have IH: "(even k \<longrightarrow> (\<forall>c\<in>set (rest ! k). \<not> isWhitespace c)) \<and>
         (odd k \<longrightarrow> rest ! k \<noteq> [] \<and> (\<forall>c\<in>set (rest ! k). isWhitespace c)) \<and>
         (even k \<and> 0 < k \<and> Suc k < length rest \<longrightarrow> rest ! k \<noteq> [])"
        using k by simp
      have "rest ! 0 \<noteq> []" if "Suc 0 < length rest"
        using 3(2) that by (cases rest) auto
      with IH show ?thesis using \<open>i = Suc j\<close> Suc
        by (cases "k = 0") auto
    qed
  qed
qed

lemma separated_odd_length: "separated ws \<Longrightarrow> odd (length ws)"
  by (induction ws rule: separated.induct) auto

subsection \<open>\<open>toUpperCase\<close> and \<open>substring\<close>\<close>

lemma toUpperCase_unit_0: "toUpperCase_unit c = 0x30 \<longleftrightarrow> c = 0x30"
  by (auto simp: toUpperCase_unit_def diff_eq_eq)

lemma toUpperCase_unit_D: "toUpperCase_unit c = 0x44 \<longleftrightarrow> c = 0x44 \<or> c = 0x64"
  by (auto simp: toUpperCase_unit_def diff_eq_eq)

lemma toUpperCase_unit_A: "toUpperCase_unit c = 0x41 \<longleftrightarrow> c = 0x41 \<or> c = 0x61"
  by (auto simp: toUpperCase_unit_def diff_eq_eq)

lemma toUpperCase_0D: "toUpperCase w = js ''0D'' \<longleftrightarrow> w = js ''0D'' \<or> w = js ''0d''"
  by (auto simp: toUpperCase_def js_def map_eq_Cons_conv toUpperCase_unit_0 toUpperCase_unit_D)

lemma toUpperCase_0A: "toUpperCase w = js ''0A'' \<longleftrightarrow> w = js ''0A'' \<or> w = js ''0a''"
  by (auto simp: toUpperCase_def js_def map_eq_Cons_conv toUpperCase_unit_0 toUpperCase_unit_A)

lemma digit_0_not_whitespace: "\<not> isWhitespace 0x30"
  by (simp add: isWhitespace_def)

lemma toUpperCase_ws:
  assumes "\<forall>c\<in>set w. isWhitespace c"
  shows "toUpperCase w \<noteq> js ''0D'' \<and> toUpperCase w \<noteq> js ''0A''"
proof -
  have "0x30 \<in> set w" if "toUpperCase w = js ''0D'' \<or> toUpperCase w = js ''0A''"
    using that unfolding toUpperCase_0D toUpperCase_0A by (auto simp: js_def)
  with assms digit_0_not_whitespace show ?thesis by blast
qed

lemma substring_same: "substring s a a = []"
  by (simp add: substring_def)

lemma substring_empty_iff: "i \<le> length s \<Longrightarrow> lastIndex \<le> i \<Longrightarrow> substring s lastIndex i = [] \<longleftrightarrow> \<not> lastIndex < i"
  by (auto simp: substring_def)

lemma substring_Suc:
  "i < length s \<Longrightarrow> lastIndex \<le> i \<Longrightarrow> substring s lastIndex (Suc i) = substring s lastIndex i @ [s ! i]"
  by (simp add: substring_def Suc_diff_le take_Suc_conv_app_nth)

section \<open>The loops of the highlighter\<close>

lemma hex_body_step:
  "hex_body words (i, parts) = (Suc i, parts @ [hex_part i (words ! i)])"
  by (simp add: hex_body_def hex_part_def Let_def)

lemma hex_loop_eq:
  "hex_loop words =
     Some (length words, map (\<lambda>j. hex_part j (words ! j)) [0..<length words])"
proof -
  let ?b = "\<lambda>(i, parts :: part list). i < length words"
  let ?P = "\<lambda>(i, parts). i \<le> length words \<and>
              parts = map (\<lambda>j. hex_part j (words ! j)) [0..<i]"
  have step: "?P (hex_body words s) \<and> (length words - fst (hex_body words s)) < (length words - fst s)"
    if "?P s" "?b s" for s
    using that by (cases s) (auto simp: hex_body_step)
  have "\<exists>t. while_option ?b (hex_body words) (0, []) = Some t"
    by (rule measure_while_option_Some[where P = ?P and f = "\<lambda>s. length words - fst s"])
       (use step in auto)
  then obtain t where t: "while_option ?b (hex_body words) (0, []) = Some t" ..
  have "?P t"
    by (rule while_option_rule[where P = ?P, OF _ t]) (use step in auto)
  moreover have "\<not> ?b t" using while_option_stop[OF t] .
  ultimately have "t = (length words, map (\<lambda>j. hex_part j (words ! j)) [0..<length words])"
    by (cases t) auto
  with t show ?thesis by (simp add: hex_loop_def)
qed

lemma text_body_step:
  assumes "i < length text" "lastIndex \<le> i"
  shows "text_body text (i, lastIndex, parts) =
     (if text ! i = CR \<or> text ! i = LF
      then (Suc i, Suc i,
            parts @ (if substring text lastIndex i = [] then [] else [Plain (substring text lastIndex i)])
              @ [Span (char_span i (text ! i = CR))])
      else (Suc i, lastIndex, parts))"
  using assms by (auto simp: text_body_def Let_def substring_empty_iff)

lemma text_inv_step:
  assumes "text_inv text s" "fst s < length text"
  shows "text_inv text (text_body text s) \<and>
         length text - fst (text_body text s) < length text - fst s"
proof -
  obtain i lastIndex parts where s: "s = (i, lastIndex, parts)" by (cases s)
  from assms s have i: "i < length text" "lastIndex \<le> i" by (auto simp: text_inv_def)
  have d: "drop i text = text ! i # drop (Suc i) text"
    using i by (simp add: Cons_nth_drop_Suc)
  from assms(1) s d
  have eq: "parts @ text_parts i (substring text lastIndex i) (text ! i # drop (Suc i) text)
              = text_parts 0 [] text"
    by (simp add: text_inv_def)
  show ?thesis
    using i eq unfolding s
    by (auto simp: text_body_step text_inv_def substring_same substring_Suc)
qed

lemma text_loop_eq:
  "\<exists>lastIndex parts. text_loop text = Some (length text, lastIndex, parts) \<and>
     (if lastIndex < length text then parts @ [Plain (substring_from text lastIndex)] else parts)
       = text_parts 0 [] text"
proof -
  let ?b = "\<lambda>(i, lastIndex :: nat, parts :: part list). i < length text"
  have b: "?b s \<longleftrightarrow> fst s < length text" for s by (cases s) auto
  have "\<exists>t. while_option ?b (text_body text) (0, 0, []) = Some t"
    by (rule measure_while_option_Some
          [where P = "text_inv text" and f = "\<lambda>s. length text - fst s"])
       (use text_inv_step in \<open>auto simp: b text_inv_def substring_same\<close>)
  then obtain t where t: "while_option ?b (text_body text) (0, 0, []) = Some t" ..
  have inv: "text_inv text t"
    by (rule while_option_rule[where P = "text_inv text", OF _ t])
       (use text_inv_step in \<open>auto simp: b text_inv_def substring_same\<close>)
  have stop: "\<not> ?b t" using while_option_stop[OF t] .
  obtain i lastIndex parts where s: "t = (i, lastIndex, parts)" by (cases t)
  from inv stop s have i: "i = length text" "lastIndex \<le> length text" by (auto simp: text_inv_def)
  from inv s i have "parts @ text_parts (length text) (drop lastIndex text) [] = text_parts 0 [] text"
    by (simp add: text_inv_def substring_def)
  then have "(if lastIndex < length text then parts @ [Plain (substring_from text lastIndex)] else parts)
       = text_parts 0 [] text"
    using i by (auto simp: substring_from_def)
  with t s i show ?thesis by (auto simp: text_loop_def)
qed

subsection \<open>What the parts of the text branch hold\<close>

lemma spans_of_append: "spans_of (ps @ qs) = spans_of ps @ spans_of qs"
  by (induction ps rule: spans_of.induct) auto

lemma plains_of_append: "plains_of (ps @ qs) = plains_of ps @ plains_of qs"
  by (induction ps rule: plains_of.induct) auto

lemma spans_text_parts:
  "spans_of (text_parts i run s) =
     map (\<lambda>(j, c). char_span j (c = CR)) (filter (\<lambda>(j, c). c = CR \<or> c = LF) (enumerate i s))"
  by (induction s arbitrary: i run) (auto simp: spans_of_append)

lemma plains_text_parts:
  "concat (plains_of (text_parts i run s)) = run @ filter (\<lambda>c. c \<noteq> CR \<and> c \<noteq> LF) s"
  by (induction s arbitrary: i run) (auto simp: plains_of_append)

lemma key_char_span: "key (char_span i b) = i"
  by (simp add: char_span_def)

lemma source_text_parts:
  "text = pre @ s \<Longrightarrow> i = length pre \<Longrightarrow>
     concat (map (part_source text) (text_parts i run s)) = run @ s"
proof (induction s arbitrary: i run pre)
  case Nil
  then show ?case by simp
next
  case (Cons c cs)
  have "text = (pre @ [c]) @ cs" "Suc i = length (pre @ [c])" using Cons.prems by auto
  from Cons.IH[OF this] have IH: "concat (map (part_source text) (text_parts (Suc i) r cs)) = r @ cs" for r .
  have "text ! i = c" using Cons.prems by simp
  then show ?case by (simp add: IH key_char_span)
qed

lemma children_char_span: "children (char_span i b) = escape (if b then CR else LF)"
  by (simp add: char_span_def escape_def CR_def LF_def)

lemma text_text_parts:
  "concat (map part_text (text_parts i run s)) = run @ concat (map escape s)"
proof (induction s arbitrary: i run)
  case Nil
  then show ?case by simp
next
  case (Cons c cs)
  have "\<not> (c = CR \<or> c = LF) \<Longrightarrow> escape c = [c]" by (simp add: escape_def)
  then show ?case by (auto simp: Cons.IH children_char_span)
qed

lemma text_parts_Nil_iff: "text_parts i run s = [] \<longleftrightarrow> run = [] \<and> s = []"
  by (induction s arbitrary: i run) auto

lemma length_escape: "length (escape c) = (if c = CR \<or> c = LF then 2 else 1)"
  by (simp add: escape_def js_def)

lemma length_concat_escape:
  "length (concat (map escape s)) = length s + length (filter (\<lambda>c. c = CR \<or> c = LF) s)"
  by (induction s) (auto simp: length_escape)

lemma escape_longer:
  assumes "CR \<in> set s \<or> LF \<in> set s"
  shows "concat (map escape s) \<noteq> s"
proof -
  from assms have "filter (\<lambda>c. c = CR \<or> c = LF) s \<noteq> []"
    by (auto simp: filter_empty_conv)
  then have "length (concat (map escape s)) \<noteq> length s"
    by (simp add: length_concat_escape)
  then show ?thesis by auto
qed

section \<open>What the highlighter returns\<close>

lemma highlight_hex:
  "highlightLineEndings text Hex =
     Some (Parts (map (\<lambda>j. hex_part j (split_ws text ! j)) [0..<length (split_ws text)]))"
proof -
  have "split_ws text \<noteq> []" by (simp add: split_ws_def split_loop_ne)
  then show ?thesis by (simp add: highlightLineEndings_def hex_loop_eq)
qed

lemma highlight_text:
  assumes "fmt = Ascii \<or> fmt = Utf8"
  shows "highlightLineEndings text fmt =
     Some (if text = [] then Text text else Parts (text_parts 0 [] text))"
proof -
  obtain lastIndex parts where l: "text_loop text = Some (length text, lastIndex, parts)"
    and p: "(if lastIndex < length text then parts @ [Plain (substring_from text lastIndex)]
             else parts) = text_parts 0 [] text"
    using text_loop_eq by blast
  have "text_parts 0 [] text = [] \<longleftrightarrow> text = []" by (simp add: text_parts_Nil_iff)
  with assms l p show ?thesis
    by (auto simp: highlightLineEndings_def Let_def)
qed

lemma separated_split_ws: "separated (split_ws text)"
  by (simp add: split_ws_def separated_split_loop)

lemma part_text_hex_part: "part_text (hex_part i w) = w"
  by (simp add: hex_part_def hex_span_def)

lemma hex_part_cases:
  "(toUpperCase w = js ''0D'' \<longrightarrow> hex_part i w = Span (hex_span i True w)) \<and>
   (toUpperCase w = js ''0A'' \<longrightarrow> hex_part i w = Span (hex_span i False w)) \<and>
   (toUpperCase w \<noteq> js ''0D'' \<and> toUpperCase w \<noteq> js ''0A'' \<longrightarrow> hex_part i w = Plain w)"
proof -
  have "js ''0A'' \<noteq> js ''0D''" by (simp add: js_def)
  then show ?thesis by (auto simp: hex_part_def)
qed

lemma hex_part_by_word:
  "(w \<in> {js ''0D'', js ''0d''} \<longrightarrow> hex_part i w = Span (hex_span i True w)) \<and>
   (w \<in> {js ''0A'', js ''0a''} \<longrightarrow> hex_part i w = Span (hex_span i False w)) \<and>
   (w \<notin> {js ''0D'', js ''0d'', js ''0A'', js ''0a''} \<longrightarrow> hex_part i w = Plain w)"
proof -
  have d: "toUpperCase w = js ''0D'' \<longleftrightarrow> w \<in> {js ''0D'', js ''0d''}"
    using toUpperCase_0D[of w] by simp
  have a: "toUpperCase w = js ''0A'' \<longleftrightarrow> w \<in> {js ''0A'', js ''0a''}"
    using toUpperCase_0A[of w] by simp
  have "{js ''0D'', js ''0d''} \<inter> {js ''0A'', js ''0a''} = {}"
    by (simp add: js_def)
  then have n: "\<not> (toUpperCase w = js ''0D'' \<and> toUpperCase w = js ''0A'')"
    unfolding d a by blast
  have u: "w \<notin> {js ''0D'', js ''0d'', js ''0A'', js ''0a''} \<longleftrightarrow>
           toUpperCase w \<noteq> js ''0D'' \<and> toUpperCase w \<noteq> js ''0A''"
    unfolding d a by blast
  show ?thesis
    unfolding u d[symmetric] a[symmetric] using n hex_part_cases[of w i] by blast
qed

lemma hex_parts_by_upper_case:
  "\<exists>parts. highlightLineEndings text Hex = Some (Parts parts) \<and>
     concat (split_ws text) = text \<and> length parts = length (split_ws text) \<and>
     (\<forall>i < length parts.
        (even i \<longrightarrow> (\<forall>c\<in>set (split_ws text ! i). \<not> isWhitespace c)) \<and>
        (even i \<and> 0 < i \<and> Suc i < length parts \<longrightarrow> split_ws text ! i \<noteq> []) \<and>
        (odd i \<longrightarrow> split_ws text ! i \<noteq> [] \<and> (\<forall>c\<in>set (split_ws text ! i). isWhitespace c) \<and>
                 parts ! i = Plain (split_ws text ! i)) \<and>
        (toUpperCase (split_ws text ! i) = js ''0D'' \<longrightarrow>
           parts ! i = Span (hex_span i True (split_ws text ! i))) \<and>
        (toUpperCase (split_ws text ! i) = js ''0A'' \<longrightarrow>
           parts ! i = Span (hex_span i False (split_ws text ! i))) \<and>
        (toUpperCase (split_ws text ! i) \<noteq> js ''0D'' \<and> toUpperCase (split_ws text ! i) \<noteq> js ''0A'' \<longrightarrow>
           parts ! i = Plain (split_ws text ! i))) \<and>
     highlightLineEndings (js ''F0D'') Hex = Some (Parts [Plain (js ''F0D'')])"
proof -
  let ?ws = "split_ws text"
  let ?parts = "map (\<lambda>j. hex_part j (?ws ! j)) [0..<length ?ws]"
  have sep: "separated ?ws" by (rule separated_split_ws)
  have nth: "?parts ! i = hex_part i (?ws ! i)" if "i < length ?ws" for i
    using that by simp
  have len: "length ?parts = length ?ws" by simp
  have odd_plain: "hex_part i (?ws ! i) = Plain (?ws ! i)" if "i < length ?ws" "odd i" for i
  proof -
    from separated_nth[OF sep that(1)] that(2)
    have "\<forall>c\<in>set (?ws ! i). isWhitespace c" by simp
    from toUpperCase_ws[OF this] show ?thesis by (simp add: hex_part_def)
  qed
  have "highlightLineEndings (js ''F0D'') Hex = Some (Parts [Plain (js ''F0D'')])"
    by code_simp
  moreover have "concat ?ws = text" by (simp add: split_ws_def concat_split_loop)
  moreover have "\<forall>i < length ?parts.
        (even i \<longrightarrow> (\<forall>c\<in>set (?ws ! i). \<not> isWhitespace c)) \<and>
        (even i \<and> 0 < i \<and> Suc i < length ?parts \<longrightarrow> ?ws ! i \<noteq> []) \<and>
        (odd i \<longrightarrow> ?ws ! i \<noteq> [] \<and> (\<forall>c\<in>set (?ws ! i). isWhitespace c) \<and>
                 ?parts ! i = Plain (?ws ! i)) \<and>
        (toUpperCase (?ws ! i) = js ''0D'' \<longrightarrow> ?parts ! i = Span (hex_span i True (?ws ! i))) \<and>
        (toUpperCase (?ws ! i) = js ''0A'' \<longrightarrow> ?parts ! i = Span (hex_span i False (?ws ! i))) \<and>
        (toUpperCase (?ws ! i) \<noteq> js ''0D'' \<and> toUpperCase (?ws ! i) \<noteq> js ''0A'' \<longrightarrow>
           ?parts ! i = Plain (?ws ! i))"
  proof (intro allI impI)
    fix i assume "i < length ?parts"
    then have i: "i < length ?ws" by simp
    show "(even i \<longrightarrow> (\<forall>c\<in>set (?ws ! i). \<not> isWhitespace c)) \<and>
        (even i \<and> 0 < i \<and> Suc i < length ?parts \<longrightarrow> ?ws ! i \<noteq> []) \<and>
        (odd i \<longrightarrow> ?ws ! i \<noteq> [] \<and> (\<forall>c\<in>set (?ws ! i). isWhitespace c) \<and>
                 ?parts ! i = Plain (?ws ! i)) \<and>
        (toUpperCase (?ws ! i) = js ''0D'' \<longrightarrow> ?parts ! i = Span (hex_span i True (?ws ! i))) \<and>
        (toUpperCase (?ws ! i) = js ''0A'' \<longrightarrow> ?parts ! i = Span (hex_span i False (?ws ! i))) \<and>
        (toUpperCase (?ws ! i) \<noteq> js ''0D'' \<and> toUpperCase (?ws ! i) \<noteq> js ''0A'' \<longrightarrow>
           ?parts ! i = Plain (?ws ! i))"
      unfolding nth[OF i] len
      using separated_nth[OF sep i] odd_plain[OF i] hex_part_cases[of "?ws ! i" i]
      by blast
  qed
  ultimately show ?thesis
    by (intro exI[of _ ?parts]) (simp only: highlight_hex length_map length_upt minus_nat.diff_0 simp_thms)
qed

lemma hex_span_CR:
  "hex_span i True word =
     \<lparr>key = i, backgroundColor = ''var(--mantine-color-orange-2)'',
      color = ''var(--mantine-color-orange-9)'', padding = ''2px 4px'',
      borderRadius = ''3px'', fontWeight = 600,
      title = ''Carriage Return (CR, '' @ [CHR 0x5C] @ ''r, 0x0D)'', children = word\<rparr>"
  by (simp add: hex_span_def backslash_def)

lemma hex_span_LF:
  "hex_span i False word =
     \<lparr>key = i, backgroundColor = ''var(--mantine-color-cyan-2)'',
      color = ''var(--mantine-color-cyan-9)'', padding = ''2px 4px'',
      borderRadius = ''3px'', fontWeight = 600,
      title = ''Line Feed (LF, '' @ [CHR 0x5C] @ ''n, 0x0A)'', children = word\<rparr>"
  by (simp add: hex_span_def backslash_def)

lemma char_span_if:
  "char_span i b =
     (if b
      then \<lparr>key = i, backgroundColor = ''var(--mantine-color-orange-2)'',
            color = ''var(--mantine-color-orange-9)'', padding = ''2px 4px'',
            borderRadius = ''3px'', fontWeight = 600,
            title = ''Carriage Return (CR, '' @ [CHR 0x5C] @ ''r)'',
            children = [0x5C, 0x72]\<rparr>
      else \<lparr>key = i, backgroundColor = ''var(--mantine-color-cyan-2)'',
            color = ''var(--mantine-color-cyan-9)'', padding = ''2px 4px'',
            borderRadius = ''3px'', fontWeight = 600,
            title = ''Line Feed (LF, '' @ [CHR 0x5C] @ ''n)'',
            children = [0x5C, 0x6E]\<rparr>)"
  by (simp add: char_span_def backslash_def js_def)

lemma part_unescaped_char_span:
  "part_unescaped (Span (char_span i b)) = [if b then CR else LF]"
  by (simp add: char_span_def js_def backslash_def)

lemma unescaped_text_parts:
  "concat (map part_unescaped (text_parts i run s)) = run @ s"
proof (induction s arbitrary: i run)
  case Nil
  then show ?case by simp
next
  case (Cons c cs)
  show ?case
  proof (cases "c = CR \<or> c = LF")
    case True
    then have "part_unescaped (Span (char_span i (c = CR))) = [c]"
      unfolding part_unescaped_char_span by auto
    with True show ?thesis by (simp add: Cons.IH del: part_unescaped.simps(2))
  next
    case False
    then show ?thesis by (simp add: Cons.IH)
  qed
qed

lemma escape_no_CR_LF: "CR \<notin> set (escape c) \<and> LF \<notin> set (escape c)"
  by (simp add: escape_def js_def backslash_def CR_def LF_def)

lemma concat_escape_no_CR_LF:
  "CR \<notin> set (concat (map escape s)) \<and> LF \<notin> set (concat (map escape s))"
  using escape_no_CR_LF by auto

subsection \<open>The run relation and the function\<close>








section \<open>The handlers of the item\<close>

lemma handleCopy_cases:
  "handleCopy writeText b2s w =
     (case writeText (displayText_memo b2s (props w)) of
        None \<Rightarrow> Inr (w\<lparr>propagationStopped := True,
                        clipboardText := Some (displayText_memo b2s (props w))\<rparr>)
      | Some err \<Rightarrow> Inr (w\<lparr>propagationStopped := True,
            console := console w @ [(''[MessageHistory] Failed to copy:'', err)]\<rparr>))"
  by (simp add: handleCopy_def clipboard_writeText_def console_error_def Let_def
           split: option.split)

lemma canResend_iff:
  "canResend p \<longleftrightarrow>
     type_field (message p) = Sent \<and> isConnected p = Some True \<and>
     (\<exists>d. originalData (message p) = Some d \<and> d \<noteq> []) \<and>
     (\<exists>f. onResend p = Some f) \<and> (\<exists>c. currentConfig p = Some c)"
  by (auto simp: canResend_def isSent_def truthy_bool_def truthy_string_def truthy_object_def
           split: option.splits)

lemma handleClick_cases:
  "handleClick w =
     (if canResend (props w)
      then w\<lparr>resendCalls := resendCalls w @
               [the (onResend (props w)) (the (originalData (message (props w))))
                  (format (message (props w))) (the (currentConfig (props w)))]\<rparr>
      else w)"
  by (auto simp: handleClick_def Let_def canResend_iff truthy_string_def truthy_object_def
           split: option.splits)

lemma onClick_handleClick: "onClick w = handleClick w"
  by (simp add: onClick_def handleClick_cases)

subsection \<open>Rendering\<close>

lemma highlight_returns: "\<exists>node. highlightLineEndings text fmt = Some node"
  by (cases fmt) (simp_all add: highlight_hex highlight_text, simp_all add: highlightLineEndings_def)

lemma render_returns: "\<exists>v. render b2s w = Some v"
proof -
  obtain node where "highlightedText b2s (props w) = Some node"
    unfolding highlightedText_def using highlight_returns by blast
  then show ?thesis by (simp add: render_def Let_def)
qed

lemma converter_write_reaches_message:
  "\<exists>v w'. MessageItemComponent (\<lambda>bytes f. (s, [])) w = Some (v, w') \<and>
      data (message (props w')) = []"
proof -
  obtain v where "render (\<lambda>b f. fst ((\<lambda>bytes f. (s, [])) b f)) w = Some v"
    using render_returns by blast
  then show ?thesis by (simp add: MessageItemComponent_def Let_def)
qed

section \<open>Claims about the highlighter\<close>

text \<open>
  Claim C3. For a format other than \<open>hex\<close>, \<open>ascii\<close> and \<open>utf8\<close>, that is for
  \<open>binary\<close>, \<open>decimal\<close> and \<open>base64\<close>, the highlighter returns the input text
  itself, for every input string.
\<close>

theorem highlight_other_formats_identity:
  "fmt \<notin> {Hex, Ascii, Utf8} \<Longrightarrow>
     fmt \<in> {Binary, Decimal, Base64} \<and> highlightLineEndings text fmt = Some (Text text)"
  by (cases fmt) (simp_all add: highlightLineEndings_def)

theorem highlight_other_formats_identity_witness:
  "Binary \<notin> {Hex, Ascii, Utf8} \<and>
   highlightLineEndings (js ''0d 0a'') Binary = Some (Text (js ''0d 0a''))"
  using highlight_other_formats_identity [of Binary "js ''0d 0a''"] by simp



text \<open>
  Claim C1. In the \<open>hex\<close> format the text is split into words and the runs of
  whitespace between them, and the parts of the result are these, one for one. A word
  whose upper-case form is \<open>0D\<close> or \<open>0A\<close> is wrapped in a \<open>span\<close> element that has the
  index of the word as its key, the orange colours and the title of CR or the cyan
  colours and the title of LF, the padding, the rounded corners and the bold weight of
  the source, and the word itself as its content. Every other word and every run of
  whitespace is a plain part, unchanged. A word that only contains \<open>0D\<close> or \<open>0A\<close>, such
  as \<open>F0D\<close>, is not wrapped.
\<close>

theorem hex_wraps_exactly_CR_LF_tokens:
  "\<exists>parts. highlightLineEndings text Hex = Some (Parts parts) \<and>
     concat (split_ws text) = text \<and> length parts = length (split_ws text) \<and>
     (\<forall>i < length parts.
        (even i \<longrightarrow> (\<forall>c\<in>set (split_ws text ! i). \<not> isWhitespace c)) \<and>
        (even i \<and> 0 < i \<and> Suc i < length parts \<longrightarrow> split_ws text ! i \<noteq> []) \<and>
        (odd i \<longrightarrow> split_ws text ! i \<noteq> [] \<and> (\<forall>c\<in>set (split_ws text ! i). isWhitespace c) \<and>
                 parts ! i = Plain (split_ws text ! i)) \<and>
        (toUpperCase (split_ws text ! i) = js ''0D'' \<longrightarrow>
           parts ! i = Span
             \<lparr>key = i, backgroundColor = ''var(--mantine-color-orange-2)'',
              color = ''var(--mantine-color-orange-9)'', padding = ''2px 4px'',
              borderRadius = ''3px'', fontWeight = 600,
              title = ''Carriage Return (CR, '' @ [CHR 0x5C] @ ''r, 0x0D)'',
              children = split_ws text ! i\<rparr>) \<and>
        (toUpperCase (split_ws text ! i) = js ''0A'' \<longrightarrow>
           parts ! i = Span
             \<lparr>key = i, backgroundColor = ''var(--mantine-color-cyan-2)'',
              color = ''var(--mantine-color-cyan-9)'', padding = ''2px 4px'',
              borderRadius = ''3px'', fontWeight = 600,
              title = ''Line Feed (LF, '' @ [CHR 0x5C] @ ''n, 0x0A)'',
              children = split_ws text ! i\<rparr>) \<and>
        (toUpperCase (split_ws text ! i) \<noteq> js ''0D'' \<and> toUpperCase (split_ws text ! i) \<noteq> js ''0A'' \<longrightarrow>
           parts ! i = Plain (split_ws text ! i))) \<and>
     highlightLineEndings (js ''F0D'') Hex = Some (Parts [Plain (js ''F0D'')])"
  by (rule hex_parts_by_upper_case[unfolded hex_span_CR hex_span_LF])

theorem hex_wraps_exactly_CR_LF_tokens_witness:
  "\<exists>parts. highlightLineEndings (js ''ff 0d 0A F0D'') Hex = Some (Parts parts) \<and>
     length parts = 7 \<and>
     odd (1::nat) \<and> parts ! 1 = Plain (js '' '') \<and>
     toUpperCase (split_ws (js ''ff 0d 0A F0D'') ! 2) = js ''0D'' \<and>
     parts ! 2 = Span
             \<lparr>key = 2, backgroundColor = ''var(--mantine-color-orange-2)'',
              color = ''var(--mantine-color-orange-9)'', padding = ''2px 4px'',
              borderRadius = ''3px'', fontWeight = 600,
              title = ''Carriage Return (CR, '' @ [CHR 0x5C] @ ''r, 0x0D)'',
              children = js ''0d''\<rparr> \<and>
     toUpperCase (split_ws (js ''ff 0d 0A F0D'') ! 4) = js ''0A'' \<and>
     parts ! 4 = Span
             \<lparr>key = 4, backgroundColor = ''var(--mantine-color-cyan-2)'',
              color = ''var(--mantine-color-cyan-9)'', padding = ''2px 4px'',
              borderRadius = ''3px'', fontWeight = 600,
              title = ''Line Feed (LF, '' @ [CHR 0x5C] @ ''n, 0x0A)'',
              children = js ''0A''\<rparr> \<and>
     toUpperCase (split_ws (js ''ff 0d 0A F0D'') ! 6) \<noteq> js ''0D'' \<and>
     toUpperCase (split_ws (js ''ff 0d 0A F0D'') ! 6) \<noteq> js ''0A'' \<and>
     parts ! 6 = Plain (js ''F0D'')"
proof -
  let ?t = "js ''ff 0d 0A F0D''"
  have w: "split_ws ?t =
      [js ''ff'', js '' '', js ''0d'', js '' '', js ''0A'', js '' '', js ''F0D'']"
    by code_simp
  have u: "toUpperCase (js ''0d'') = js ''0D''" "toUpperCase (js ''0A'') = js ''0A''"
    "toUpperCase (js ''F0D'') \<noteq> js ''0D''" "toUpperCase (js ''F0D'') \<noteq> js ''0A''"
    by code_simp+
  from hex_wraps_exactly_CR_LF_tokens[of ?t] obtain parts where
    h: "highlightLineEndings ?t Hex = Some (Parts parts)" and
    len: "length parts = length (split_ws ?t)" and
    all: "\<forall>i < length parts.
        (even i \<longrightarrow> (\<forall>c\<in>set (split_ws ?t ! i). \<not> isWhitespace c)) \<and>
        (even i \<and> 0 < i \<and> Suc i < length parts \<longrightarrow> split_ws ?t ! i \<noteq> []) \<and>
        (odd i \<longrightarrow> split_ws ?t ! i \<noteq> [] \<and> (\<forall>c\<in>set (split_ws ?t ! i). isWhitespace c) \<and>
                 parts ! i = Plain (split_ws ?t ! i)) \<and>
        (toUpperCase (split_ws ?t ! i) = js ''0D'' \<longrightarrow>
           parts ! i = Span
             \<lparr>key = i, backgroundColor = ''var(--mantine-color-orange-2)'',
              color = ''var(--mantine-color-orange-9)'', padding = ''2px 4px'',
              borderRadius = ''3px'', fontWeight = 600,
              title = ''Carriage Return (CR, '' @ [CHR 0x5C] @ ''r, 0x0D)'',
              children = split_ws ?t ! i\<rparr>) \<and>
        (toUpperCase (split_ws ?t ! i) = js ''0A'' \<longrightarrow>
           parts ! i = Span
             \<lparr>key = i, backgroundColor = ''var(--mantine-color-cyan-2)'',
              color = ''var(--mantine-color-cyan-9)'', padding = ''2px 4px'',
              borderRadius = ''3px'', fontWeight = 600,
              title = ''Line Feed (LF, '' @ [CHR 0x5C] @ ''n, 0x0A)'',
              children = split_ws ?t ! i\<rparr>) \<and>
        (toUpperCase (split_ws ?t ! i) \<noteq> js ''0D'' \<and> toUpperCase (split_ws ?t ! i) \<noteq> js ''0A'' \<longrightarrow>
           parts ! i = Plain (split_ws ?t ! i))"
    by blast
  have l7: "length parts = 7" using len w by simp
  have n: "split_ws ?t ! 1 = js '' ''" "split_ws ?t ! 2 = js ''0d''"
    "split_ws ?t ! 4 = js ''0A''" "split_ws ?t ! 6 = js ''F0D''"
    unfolding w by (simp_all add: numeral_nat)
  have "parts ! 1 = Plain (js '' '')" using all[rule_format, of 1] l7 n by simp
  moreover have "parts ! 2 = Span
             \<lparr>key = 2, backgroundColor = ''var(--mantine-color-orange-2)'',
              color = ''var(--mantine-color-orange-9)'', padding = ''2px 4px'',
              borderRadius = ''3px'', fontWeight = 600,
              title = ''Carriage Return (CR, '' @ [CHR 0x5C] @ ''r, 0x0D)'',
              children = js ''0d''\<rparr>"
    using all[rule_format, of 2] l7 n u by simp
  moreover have "parts ! 4 = Span
             \<lparr>key = 4, backgroundColor = ''var(--mantine-color-cyan-2)'',
              color = ''var(--mantine-color-cyan-9)'', padding = ''2px 4px'',
              borderRadius = ''3px'', fontWeight = 600,
              title = ''Line Feed (LF, '' @ [CHR 0x5C] @ ''n, 0x0A)'',
              children = js ''0A''\<rparr>"
    using all[rule_format, of 4] l7 n u by simp
  moreover have "parts ! 6 = Plain (js ''F0D'')"
    using all[rule_format, of 6] l7 n u by simp
  ultimately show ?thesis using h l7 n u by simp
qed

text \<open>
  Claim C2, as it is stated, says that each CR and LF of the text is wrapped in an
  emphasized element. On the text of the letter \<open>a\<close> and a CR, in the \<open>ascii\<close> format,
  the element of the result holds a backslash and the letter \<open>r\<close>, and no part of the
  result holds the CR.
\<close>

theorem text_element_holds_escape_not_CR:
  "highlightLineEndings [0x61, CR] Ascii =
     Some (Parts [Plain [0x61],
       Span \<lparr>key = 1, backgroundColor = ''var(--mantine-color-orange-2)'',
             color = ''var(--mantine-color-orange-9)'', padding = ''2px 4px'',
             borderRadius = ''3px'', fontWeight = 600,
             title = ''Carriage Return (CR, '' @ [CHR 0x5C] @ ''r)'',
             children = [0x5C, 0x72]\<rparr>]) \<and>
   map_option node_text (highlightLineEndings [0x61, CR] Ascii) = Some [0x61, 0x5C, 0x72] \<and>
   CR \<notin> set [0x61, 0x5C, 0x72]"
proof -
  have c: "CR \<noteq> 0x61" "LF \<noteq> 0x61" "CR \<noteq> LF" by (simp_all add: CR_def LF_def)
  have t: "text_parts 0 [] [0x61, CR] = [Plain [0x61], Span (char_span 1 True)]"
    by (simp add: CR_def LF_def)
  have h: "highlightLineEndings [0x61, CR] Ascii =
      Some (Parts [Plain [0x61], Span (char_span 1 True)])"
    unfolding highlight_text[of Ascii, simplified] t by simp
  have n: "node_text (Parts [Plain [0x61], Span (char_span 1 True)]) = [0x61, 0x5C, 0x72]"
    by (simp add: node_text_def char_span_if)
  have "CR \<notin> set [0x61, 0x5C, 0x72]" by (simp add: CR_def)
  with h n show ?thesis by (simp add: char_span_if)
qed

text \<open>
  Claim C2, amended. In the \<open>ascii\<close> and \<open>utf8\<close> formats every CR and every LF of the
  text is replaced by one \<open>span\<close> element, in the order of the text, and there is no other
  element. The element has the index of the code unit as its key, the orange colours and
  the title of CR or the cyan colours and the title of LF, the padding, the rounded
  corners and the bold weight of the source, and as its content the escape of the code
  unit, a backslash and the letter \<open>r\<close> or \<open>n\<close>; the CR or LF itself is nowhere in the
  result. The plain parts hold the other code units, unchanged and in their order, and
  no CR or LF. The parts give the text back, each element read as the code unit it
  stands for, by its key or by its content.
\<close>

theorem text_replaces_CR_LF_by_escape_elements:
  assumes "fmt = Ascii \<or> fmt = Utf8"
  shows "\<exists>node. highlightLineEndings text fmt = Some node \<and>
    spans_of (node_parts node) =
      map (\<lambda>(i, c).
             if c = CR
             then \<lparr>key = i, backgroundColor = ''var(--mantine-color-orange-2)'',
                   color = ''var(--mantine-color-orange-9)'', padding = ''2px 4px'',
                   borderRadius = ''3px'', fontWeight = 600,
                   title = ''Carriage Return (CR, '' @ [CHR 0x5C] @ ''r)'',
                   children = [0x5C, 0x72]\<rparr>
             else \<lparr>key = i, backgroundColor = ''var(--mantine-color-cyan-2)'',
                   color = ''var(--mantine-color-cyan-9)'', padding = ''2px 4px'',
                   borderRadius = ''3px'', fontWeight = 600,
                   title = ''Line Feed (LF, '' @ [CHR 0x5C] @ ''n)'',
                   children = [0x5C, 0x6E]\<rparr>)
          (filter (\<lambda>(i, c). c = CR \<or> c = LF) (enumerate 0 text)) \<and>
    concat (plains_of (node_parts node)) = filter (\<lambda>c. c \<noteq> CR \<and> c \<noteq> LF) text \<and>
    (\<forall>s \<in> set (plains_of (node_parts node)). CR \<notin> set s \<and> LF \<notin> set s) \<and>
    concat (map (part_source text) (node_parts node)) = text \<and>
    concat (map part_unescaped (node_parts node)) = text \<and>
    node_text node = concat (map escape text) \<and>
    CR \<notin> set (node_text node) \<and> LF \<notin> set (node_text node)"
proof -
  let ?node = "if text = [] then Text text else Parts (text_parts 0 [] text)"
  have h: "highlightLineEndings text fmt = Some ?node" by (rule highlight_text[OF assms])
  have s: "spans_of (node_parts ?node) =
      map (\<lambda>(i, c). char_span i (c = CR)) (filter (\<lambda>(i, c). c = CR \<or> c = LF) (enumerate 0 text))"
    by (simp add: spans_text_parts)
  have p: "concat (plains_of (node_parts ?node)) = filter (\<lambda>c. c \<noteq> CR \<and> c \<noteq> LF) text"
    by (simp add: plains_text_parts)
  have q: "\<forall>s \<in> set (plains_of (node_parts ?node)). CR \<notin> set s \<and> LF \<notin> set s"
  proof
    fix s assume "s \<in> set (plains_of (node_parts ?node))"
    then have "set s \<subseteq> set (concat (plains_of (node_parts ?node)))" by auto
    then show "CR \<notin> set s \<and> LF \<notin> set s" unfolding p by auto
  qed
  have r: "concat (map (part_source text) (node_parts ?node)) = text"
    using source_text_parts[of "text" "[]" "text" 0 "[]"] by simp
  have u: "concat (map part_unescaped (node_parts ?node)) = text"
    by (simp add: unescaped_text_parts)
  have n: "node_text ?node = concat (map escape text)"
    by (simp add: node_text_def text_text_parts)
  have e: "CR \<notin> set (node_text ?node) \<and> LF \<notin> set (node_text ?node)"
    unfolding n by (rule concat_escape_no_CR_LF)
  note s' = s[unfolded char_span_if]
  from h s' p q r u n e show ?thesis by blast
qed

theorem text_replaces_CR_LF_by_escape_elements_witness:
  "(Utf8 = Ascii \<or> Utf8 = Utf8) \<and>
   (\<exists>node. highlightLineEndings [0x61, CR, LF, 0x62] Utf8 = Some node \<and>
     spans_of (node_parts node) =
       [\<lparr>key = 1, backgroundColor = ''var(--mantine-color-orange-2)'',
          color = ''var(--mantine-color-orange-9)'', padding = ''2px 4px'',
          borderRadius = ''3px'', fontWeight = 600,
          title = ''Carriage Return (CR, '' @ [CHR 0x5C] @ ''r)'',
          children = [0x5C, 0x72]\<rparr>,
        \<lparr>key = 2, backgroundColor = ''var(--mantine-color-cyan-2)'',
          color = ''var(--mantine-color-cyan-9)'', padding = ''2px 4px'',
          borderRadius = ''3px'', fontWeight = 600,
          title = ''Line Feed (LF, '' @ [CHR 0x5C] @ ''n)'',
          children = [0x5C, 0x6E]\<rparr>] \<and>
     concat (plains_of (node_parts node)) = [0x61, 0x62] \<and>
     concat (map part_unescaped (node_parts node)) = [0x61, CR, LF, 0x62] \<and>
     node_text node = [0x61, 0x5C, 0x72, 0x5C, 0x6E, 0x62])"
proof -
  have e: "enumerate 0 [0x61, CR, LF, 0x62] = [(0, 0x61), (1, CR), (2, LF), (3, 0x62)]"
    by (simp add: enumerate_simps)
  have f: "filter (\<lambda>(i, c). c = CR \<or> c = LF) [(0::nat, 0x61), (1, CR), (2, LF), (3, 0x62)]
      = [(1, CR), (2, LF)]"
    by (simp add: CR_def LF_def)
  have g: "filter (\<lambda>c. c \<noteq> CR \<and> c \<noteq> LF) [0x61, CR, LF, 0x62] = [0x61, 0x62]"
    by (simp add: CR_def LF_def)
  have x: "concat (map escape [0x61, CR, LF, 0x62]) = [0x61, 0x5C, 0x72, 0x5C, 0x6E, 0x62]"
    by (simp add: escape_def js_def backslash_def CR_def LF_def)
  have n: "LF \<noteq> CR" by (simp add: CR_def LF_def)
  from text_replaces_CR_LF_by_escape_elements[of Utf8 "[0x61, CR, LF, 0x62]"]
  show ?thesis unfolding e f g x using n by auto
qed

text \<open>
  Claim C8. In the \<open>hex\<close> format the texts of the parts, put together in order, are the
  input. In the \<open>ascii\<close> and \<open>utf8\<close> formats they are the input with every CR and LF
  replaced by its escape, a backslash and the letter \<open>r\<close> or \<open>n\<close>, which differs from
  the input whenever the input holds a CR or an LF.
\<close>

theorem hex_content_preserved_text_escaped:
  "(\<exists>node. highlightLineEndings text Hex = Some node \<and> node_text node = text) \<and>
   (fmt = Ascii \<or> fmt = Utf8 \<longrightarrow>
      (\<exists>node. highlightLineEndings text fmt = Some node \<and>
         node_text node = concat (map escape text) \<and>
         (CR \<in> set text \<or> LF \<in> set text \<longrightarrow> node_text node \<noteq> text))) \<and>
   escape CR = [0x5C, 0x72] \<and> escape LF = [0x5C, 0x6E]"
proof -
  let ?ws = "split_ws text"
  have "map (part_text \<circ> (\<lambda>j. hex_part j (?ws ! j))) [0..<length ?ws] = map (\<lambda>j. ?ws ! j) [0..<length ?ws]"
    by (simp add: part_text_hex_part)
  then have "concat (map part_text (map (\<lambda>j. hex_part j (?ws ! j)) [0..<length ?ws])) = concat ?ws"
    by (simp only: map_map map_nth)
  then have hex: "\<exists>node. highlightLineEndings text Hex = Some node \<and> node_text node = text"
    by (simp add: highlight_hex node_text_def split_ws_def concat_split_loop)
  have asc: "\<exists>node. highlightLineEndings text fmt = Some node \<and>
         node_text node = concat (map escape text) \<and>
         (CR \<in> set text \<or> LF \<in> set text \<longrightarrow> node_text node \<noteq> text)"
    if f: "fmt = Ascii \<or> fmt = Utf8"
  proof -
    let ?node = "if text = [] then Text text else Parts (text_parts 0 [] text)"
    have "node_text ?node = concat (map escape text)"
      by (simp add: node_text_def text_text_parts)
    then show ?thesis using highlight_text[OF f, of "text"] escape_longer[of "text"] by metis
  qed
  have "escape CR = [0x5C, 0x72]" "escape LF = [0x5C, 0x6E]"
    by (simp_all add: escape_def js_def backslash_def CR_def LF_def)
  with hex asc show ?thesis by blast
qed

theorem hex_content_preserved_text_escaped_witness:
  "(Ascii = Ascii \<or> Ascii = Utf8) \<and> (CR \<in> set [0x61, CR] \<or> LF \<in> set [0x61, CR]) \<and>
   (\<exists>node. highlightLineEndings [0x61, CR] Ascii = Some node \<and>
      node_text node = [0x61, 0x5C, 0x72] \<and> node_text node \<noteq> [0x61, CR])"
proof -
  have e: "concat (map escape [0x61, CR]) = [0x61, 0x5C, 0x72]"
    by (simp add: escape_def js_def backslash_def CR_def LF_def)
  from hex_content_preserved_text_escaped[of "[0x61, CR]" Ascii] e
  show ?thesis by auto
qed

text \<open>
  Claim C9. In the \<open>hex\<close> format the match ignores the case of the letter: the words
  \<open>0D\<close> and \<open>0d\<close> get the element for CR, the words \<open>0A\<close> and \<open>0a\<close> the element
  for LF, and no other word gets an element. The content of the element is the word as it
  was written; apart from the content, the element of a word is the element of its
  upper-case form.
\<close>

theorem hex_match_ignores_case:
  "\<exists>parts. highlightLineEndings text Hex = Some (Parts parts) \<and>
     length parts = length (split_ws text) \<and>
     (\<forall>i < length parts.
        (split_ws text ! i \<in> {js ''0D'', js ''0d''} \<longrightarrow>
           parts ! i = Span (hex_span i True (split_ws text ! i))) \<and>
        (split_ws text ! i \<in> {js ''0A'', js ''0a''} \<longrightarrow>
           parts ! i = Span (hex_span i False (split_ws text ! i))) \<and>
        (split_ws text ! i \<notin> {js ''0D'', js ''0d'', js ''0A'', js ''0a''} \<longrightarrow>
           parts ! i = Plain (split_ws text ! i))) \<and>
     (\<forall>i isCR word. children (hex_span i isCR word) = word \<and>
        hex_span i isCR word = (hex_span i isCR (toUpperCase word))\<lparr>children := word\<rparr>)"
proof -
  let ?ws = "split_ws text"
  let ?parts = "map (\<lambda>j. hex_part j (?ws ! j)) [0..<length ?ws]"
  have style: "\<forall>i isCR word. children (hex_span i isCR word) = word \<and>
        hex_span i isCR word = (hex_span i isCR (toUpperCase word))\<lparr>children := word\<rparr>"
    by (simp add: hex_span_def)
  have main: "\<forall>i < length ?parts.
        (?ws ! i \<in> {js ''0D'', js ''0d''} \<longrightarrow> ?parts ! i = Span (hex_span i True (?ws ! i))) \<and>
        (?ws ! i \<in> {js ''0A'', js ''0a''} \<longrightarrow> ?parts ! i = Span (hex_span i False (?ws ! i))) \<and>
        (?ws ! i \<notin> {js ''0D'', js ''0d'', js ''0A'', js ''0a''} \<longrightarrow> ?parts ! i = Plain (?ws ! i))"
  proof (intro allI impI)
    fix i assume "i < length ?parts"
    then have i: "i < length ?ws" by simp
    have nth: "?parts ! i = hex_part i (?ws ! i)" using i by simp
    show "(?ws ! i \<in> {js ''0D'', js ''0d''} \<longrightarrow> ?parts ! i = Span (hex_span i True (?ws ! i))) \<and>
        (?ws ! i \<in> {js ''0A'', js ''0a''} \<longrightarrow> ?parts ! i = Span (hex_span i False (?ws ! i))) \<and>
        (?ws ! i \<notin> {js ''0D'', js ''0d'', js ''0A'', js ''0a''} \<longrightarrow> ?parts ! i = Plain (?ws ! i))"
      unfolding nth by (rule hex_part_by_word)
  qed
  have len: "length ?parts = length ?ws" by simp
  have h: "highlightLineEndings text Hex = Some (Parts ?parts)" by (rule highlight_hex)
  from h len main style show ?thesis by blast
qed

theorem hex_match_ignores_case_witness:
  "\<exists>parts. highlightLineEndings (js ''0d 0a'') Hex = Some (Parts parts) \<and>
     length parts = 3 \<and>
     split_ws (js ''0d 0a'') ! 0 \<in> {js ''0D'', js ''0d''} \<and>
     parts ! 0 = Span (hex_span 0 True (js ''0d'')) \<and>
     split_ws (js ''0d 0a'') ! 2 \<in> {js ''0A'', js ''0a''} \<and>
     parts ! 2 = Span (hex_span 2 False (js ''0a'')) \<and>
     split_ws (js ''0d 0a'') ! 1 \<notin> {js ''0D'', js ''0d'', js ''0A'', js ''0a''} \<and>
     parts ! 1 = Plain (js '' '')"
proof -
  let ?t = "js ''0d 0a''"
  have w: "split_ws ?t = [js ''0d'', js '' '', js ''0a'']"
    by code_simp
  from hex_match_ignores_case[of ?t] obtain parts where
    h: "highlightLineEndings ?t Hex = Some (Parts parts)" and
    len: "length parts = length (split_ws ?t)" and
    all: "\<forall>i < length parts.
        (split_ws ?t ! i \<in> {js ''0D'', js ''0d''} \<longrightarrow>
           parts ! i = Span (hex_span i True (split_ws ?t ! i))) \<and>
        (split_ws ?t ! i \<in> {js ''0A'', js ''0a''} \<longrightarrow>
           parts ! i = Span (hex_span i False (split_ws ?t ! i))) \<and>
        (split_ws ?t ! i \<notin> {js ''0D'', js ''0d'', js ''0A'', js ''0a''} \<longrightarrow>
           parts ! i = Plain (split_ws ?t ! i))"
    by blast
  have l3: "length parts = 3" using len w by simp
  have n: "split_ws ?t ! 0 = js ''0d''" "split_ws ?t ! 1 = js '' ''" "split_ws ?t ! 2 = js ''0a''"
    unfolding w by (simp_all add: numeral_nat)
  have ne: "js '' '' \<notin> {js ''0D'', js ''0d'', js ''0A'', js ''0a''}" by (simp add: js_def)
  have m: "js ''0d'' \<in> {js ''0D'', js ''0d''}" "js ''0a'' \<in> {js ''0A'', js ''0a''}" by simp_all
  have p0: "parts ! 0 = Span (hex_span 0 True (js ''0d''))"
    using all[rule_format, of 0] l3 m unfolding n by simp
  have p1: "parts ! 1 = Plain (js '' '')"
    using all[rule_format, of 1] l3 ne unfolding n by simp
  have p2: "parts ! 2 = Span (hex_span 2 False (js ''0a''))"
    using all[rule_format, of 2] l3 m unfolding n by simp
  show ?thesis
    unfolding n using h l3 m ne p0 p1 p2 by blast
qed

section \<open>Claims about the message item\<close>

text \<open>
  Claim C5. The copy handler catches the failure of the clipboard write: it never ends
  with an error, whatever the clipboard does. When the write fails, the error is logged
  on the console with the message of the source, and nothing else is changed but the
  stopped event: the props and with them the message, the state \<open>isHovered\<close>, the
  clipboard and the calls to \<open>onResend\<close> are as before.
\<close>

theorem handleCopy_catches_clipboard_failure:
  "(\<exists>w'. handleCopy writeText b2s w = Inr w') \<and>
   (writeText (displayText_memo b2s (props w)) = Some err \<longrightarrow>
      handleCopy writeText b2s w =
        Inr (w\<lparr>propagationStopped := True,
               console := console w @ [(''[MessageHistory] Failed to copy:'', err)]\<rparr>) \<and>
      (\<exists>w'. handleCopy writeText b2s w = Inr w' \<and>
         props w' = props w \<and> isHovered w' = isHovered w \<and>
         clipboardText w' = clipboardText w \<and> resendCalls w' = resendCalls w \<and>
         console w' = console w @ [(''[MessageHistory] Failed to copy:'', err)]))"
  by (simp add: handleCopy_cases split: option.split)

theorem handleCopy_catches_clipboard_failure_witness:
  "(\<lambda>t. Some ''NotAllowedError'') (displayText_memo example_b2s (props example_world))
     = Some ''NotAllowedError'' \<and>
   handleCopy (\<lambda>t. Some ''NotAllowedError'') example_b2s example_world =
     Inr (example_world\<lparr>propagationStopped := True,
            console := [(''[MessageHistory] Failed to copy:'', ''NotAllowedError'')]\<rparr>)"
  using handleCopy_catches_clipboard_failure
          [of "\<lambda>t. Some ''NotAllowedError''" example_b2s example_world "''NotAllowedError''"]
  by (simp add: example_world_def)

text \<open>
  Claim C6. No operation of the item changes the message. A rendering, with its call of
  the converter and of the highlighter, returns and leaves the id, the type, the
  timestamp, the format, the display text and the original input of the message as they
  were, whatever the converter does; the byte array is what the converter leaves, so with
  a converter that leaves its argument as it was, as the format converter of the
  specification does, the message and the whole world are as before. A click, a copy and
  the mouse entering or leaving keep the props, and with them the message.
\<close>

theorem operations_keep_message:
  "(\<exists>v w'. MessageItemComponent conv w = Some (v, w') \<and>
      id_field (message (props w')) = id_field (message (props w)) \<and>
      type_field (message (props w')) = type_field (message (props w)) \<and>
      timestamp (message (props w')) = timestamp (message (props w)) \<and>
      format (message (props w')) = format (message (props w)) \<and>
      displayText (message (props w')) = displayText (message (props w)) \<and>
      originalData (message (props w')) = originalData (message (props w)) \<and>
      data (message (props w')) = snd (conv (data (message (props w))) (formatToUse (props w))) \<and>
      ((\<forall>bytes f. snd (conv bytes f) = bytes) \<longrightarrow>
         message (props w') = message (props w) \<and> w' = w)) \<and>
   props (handleClick w) = props w \<and> props (onClick w) = props w \<and>
   props (onMouseEnter w) = props w \<and> props (onMouseLeave w) = props w \<and>
   (\<exists>w'. handleCopy writeText b2s w = Inr w' \<and> props w' = props w) \<and>
   message (props (handleClick w)) = message (props w) \<and>
   message (props (onClick w)) = message (props w) \<and>
   message (props (onMouseEnter w)) = message (props w) \<and>
   message (props (onMouseLeave w)) = message (props w) \<and>
   (\<exists>w'. handleCopy writeText b2s w = Inr w' \<and> message (props w') = message (props w))"
proof -
  obtain v where v: "render (\<lambda>b f. fst (conv b f)) w = Some v"
    using render_returns by blast
  let ?bytes = "snd (conv (data (message (props w))) (formatToUse (props w)))"
  let ?w' = "w\<lparr>props := (props w)\<lparr>message := (message (props w))\<lparr>data := ?bytes\<rparr>\<rparr>\<rparr>"
  have m: "MessageItemComponent conv w = Some (v, ?w')"
    by (simp add: MessageItemComponent_def Let_def v)
  have same: "message (props ?w') = message (props w) \<and> ?w' = w"
    if "\<forall>bytes f. snd (conv bytes f) = bytes"
    using that by simp
  have r: "\<exists>v w'. MessageItemComponent conv w = Some (v, w') \<and>
      id_field (message (props w')) = id_field (message (props w)) \<and>
      type_field (message (props w')) = type_field (message (props w)) \<and>
      timestamp (message (props w')) = timestamp (message (props w)) \<and>
      format (message (props w')) = format (message (props w)) \<and>
      displayText (message (props w')) = displayText (message (props w)) \<and>
      originalData (message (props w')) = originalData (message (props w)) \<and>
      data (message (props w')) = snd (conv (data (message (props w))) (formatToUse (props w))) \<and>
      ((\<forall>bytes f. snd (conv bytes f) = bytes) \<longrightarrow>
         message (props w') = message (props w) \<and> w' = w)"
    using m same by (intro exI[of _ v] exI[of _ ?w']) simp
  have c: "props (handleClick w) = props w"
    by (simp add: handleClick_def Let_def split: option.split)
  have k: "props (onClick w) = props w"
    by (simp add: onClick_def c)
  have e: "props (onMouseEnter w) = props w" "props (onMouseLeave w) = props w"
    by (simp_all add: onMouseEnter_def onMouseLeave_def)
  have y: "\<exists>w'. handleCopy writeText b2s w = Inr w' \<and> props w' = props w"
    by (simp add: handleCopy_cases split: option.split)
  from y have y': "\<exists>w'. handleCopy writeText b2s w = Inr w' \<and> message (props w') = message (props w)"
    by auto
  from r c k e y y' show ?thesis by simp
qed

theorem operations_keep_message_witness:
  "(\<forall>bytes f. snd (example_converter bytes f) = bytes) \<and>
   (\<exists>v. MessageItemComponent example_converter example_world = Some (v, example_world)) \<and>
   message (props example_world) = example_message"
proof -
  have h: "\<forall>bytes f. snd (example_converter bytes f) = bytes"
    by (simp add: example_converter_def)
  from operations_keep_message[of example_converter example_world] h
  have "\<exists>v. MessageItemComponent example_converter example_world = Some (v, example_world)"
    by auto
  with h show ?thesis by (simp add: example_world_def example_props_def)
qed

text \<open>
  Claim C7. A click never calls \<open>onResend\<close> for a received message, for a message
  without its original input, without an open connection, without a current
  configuration or without a callback: the click then changes nothing. Whenever a click
  does add a call, the message is a sent one with its original input, the connection is
  open, the configuration is there, and the call is the one with exactly that input.
\<close>

theorem resend_only_for_sent_with_original:
  "(type_field (message (props w)) = Received \<or> originalData (message (props w)) = None \<or>
    isConnected (props w) \<noteq> Some True \<or> currentConfig (props w) = None \<or>
    onResend (props w) = None
      \<longrightarrow> handleClick w = w \<and> onClick w = w) \<and>
   (resendCalls (handleClick w) \<noteq> resendCalls w \<or> resendCalls (onClick w) \<noteq> resendCalls w
      \<longrightarrow> (\<exists>f d c. onResend (props w) = Some f \<and>
             type_field (message (props w)) = Sent \<and>
             originalData (message (props w)) = Some d \<and>
             isConnected (props w) = Some True \<and>
             currentConfig (props w) = Some c \<and>
             resendCalls (handleClick w) = resendCalls w @ [f d (format (message (props w))) c] \<and>
             resendCalls (onClick w) = resendCalls w @ [f d (format (message (props w))) c]))"
proof -
  have a: "handleClick w = w \<and> onClick w = w"
    if "type_field (message (props w)) = Received \<or> originalData (message (props w)) = None \<or>
        isConnected (props w) \<noteq> Some True \<or> currentConfig (props w) = None \<or>
        onResend (props w) = None"
  proof -
    from that have "\<not> canResend (props w)" by (auto simp: canResend_iff)
    then show ?thesis by (simp add: onClick_handleClick handleClick_cases)
  qed
  have b: "\<exists>f d c. onResend (props w) = Some f \<and>
             type_field (message (props w)) = Sent \<and>
             originalData (message (props w)) = Some d \<and>
             isConnected (props w) = Some True \<and>
             currentConfig (props w) = Some c \<and>
             resendCalls (handleClick w) = resendCalls w @ [f d (format (message (props w))) c] \<and>
             resendCalls (onClick w) = resendCalls w @ [f d (format (message (props w))) c]"
    if "resendCalls (handleClick w) \<noteq> resendCalls w \<or> resendCalls (onClick w) \<noteq> resendCalls w"
  proof -
    from that have c: "canResend (props w)"
      by (auto simp: onClick_handleClick handleClick_cases split: if_splits)
    then obtain f d c where "onResend (props w) = Some f" "originalData (message (props w)) = Some d"
      "currentConfig (props w) = Some c" "type_field (message (props w)) = Sent"
      "isConnected (props w) = Some True"
      by (auto simp: canResend_iff)
    with c show ?thesis by (simp add: onClick_handleClick handleClick_cases)
  qed
  from a b show ?thesis by blast
qed

theorem resend_only_for_sent_with_original_witness:
  "type_field (message (props (example_world\<lparr>props :=
       example_props\<lparr>message := example_message\<lparr>type_field := Received\<rparr>\<rparr>\<rparr>))) = Received \<and>
   handleClick (example_world\<lparr>props :=
       example_props\<lparr>message := example_message\<lparr>type_field := Received\<rparr>\<rparr>\<rparr>)
     = example_world\<lparr>props :=
       example_props\<lparr>message := example_message\<lparr>type_field := Received\<rparr>\<rparr>\<rparr> \<and>
   resendCalls (handleClick example_world) \<noteq> resendCalls example_world \<and>
   type_field (message (props example_world)) = Sent \<and>
   originalData (message (props example_world)) = Some (js ''A'') \<and>
   resendCalls (handleClick example_world) = [(js ''A'', Ascii, example_config)]"
proof -
  let ?r = "example_world\<lparr>props :=
       example_props\<lparr>message := example_message\<lparr>type_field := Received\<rparr>\<rparr>\<rparr>"
  have r: "type_field (message (props ?r)) = Received" by simp
  from resend_only_for_sent_with_original[of ?r] r
  have 1: "handleClick ?r = ?r" by blast
  have c: "handleClick example_world =
      example_world\<lparr>resendCalls := [(js ''A'', Ascii, example_config)]\<rparr>"
    by (simp add: handleClick_def canResend_def isSent_def truthy_bool_def truthy_string_def
          truthy_object_def example_world_def example_props_def example_message_def js_def)
  have 2: "resendCalls (handleClick example_world) \<noteq> resendCalls example_world"
    unfolding c by (simp add: example_world_def)
  from resend_only_for_sent_with_original[of example_world] 2
  have 3: "type_field (message (props example_world)) = Sent" by blast
  have 4: "originalData (message (props example_world)) = Some (js ''A'')"
    by (simp add: example_world_def example_props_def example_message_def)
  have 5: "resendCalls (handleClick example_world) = [(js ''A'', Ascii, example_config)]"
    unfolding c by simp
  from r 1 2 3 4 5 show ?thesis by blast
qed

text \<open>
  Claim C10. A display format, when given, is the format for both the conversion of the
  bytes to text and the highlighting, in place of the format of the message; without
  it the format of the message is used. A resend from the item passes the format of
  the message, whatever the display format is.
\<close>

theorem display_format_overrides_resend_keeps_format:
  "(displayFormat p = Some f \<longrightarrow>
      formatToUse p = f \<and>
      displayText_memo b2s p = b2s (data (message p)) f \<and>
      highlightedText b2s p = highlightLineEndings (b2s (data (message p)) f) f) \<and>
   (displayFormat p = None \<longrightarrow>
      formatToUse p = format (message p) \<and>
      highlightedText b2s p =
        highlightLineEndings (b2s (data (message p)) (format (message p))) (format (message p))) \<and>
   (props w = p \<and> canResend p \<longrightarrow>
      (\<exists>g d c. onResend p = Some g \<and> originalData (message p) = Some d \<and>
         currentConfig p = Some c \<and>
         resendCalls (handleClick w) = resendCalls w @ [g d (format (message p)) c])) \<and>
   (props w = p \<longrightarrow>
      (\<forall>v. render b2s w = Some v \<longrightarrow> highlightedText b2s p = Some (content v)))"
proof -
  have r: "\<exists>g d c. onResend p = Some g \<and> originalData (message p) = Some d \<and>
         currentConfig p = Some c \<and>
         resendCalls (handleClick w) = resendCalls w @ [g d (format (message p)) c]"
    if "props w = p" "canResend p"
  proof -
    from that(2) obtain g d c where "onResend p = Some g" "originalData (message p) = Some d"
      "currentConfig p = Some c"
      by (auto simp: canResend_iff)
    with that show ?thesis by (simp add: handleClick_cases)
  qed
  have v: "highlightedText b2s p = Some (content v)" if "props w = p" "render b2s w = Some v" for v
    using that by (auto simp: render_def Let_def split: option.splits)
  have "displayFormat p = Some f \<longrightarrow>
      formatToUse p = f \<and>
      displayText_memo b2s p = b2s (data (message p)) f \<and>
      highlightedText b2s p = highlightLineEndings (b2s (data (message p)) f) f"
    by (simp add: formatToUse_def displayText_memo_def highlightedText_def)
  moreover have "displayFormat p = None \<longrightarrow>
      formatToUse p = format (message p) \<and>
      highlightedText b2s p =
        highlightLineEndings (b2s (data (message p)) (format (message p))) (format (message p))"
    by (simp add: formatToUse_def displayText_memo_def highlightedText_def)
  ultimately show ?thesis using r v by blast
qed

theorem display_format_overrides_resend_keeps_format_witness:
  "displayFormat example_props = Some Hex \<and> format (message example_props) = Ascii \<and>
   formatToUse example_props = Hex \<and>
   displayText_memo example_b2s example_props = js ''41 0d'' \<and>
   highlightedText example_b2s example_props = highlightLineEndings (js ''41 0d'') Hex \<and>
   props example_world = example_props \<and> canResend example_props \<and>
   resendCalls (handleClick example_world) = [(js ''A'', Ascii, example_config)]"
proof -
  have d: "displayFormat example_props = Some Hex" "format (message example_props) = Ascii"
    "props example_world = example_props" "data (message example_props) = [0x41, 0x0D]"
    "onResend example_props = Some (\<lambda>d f c. (d, f, c))"
    "originalData (message example_props) = Some (js ''A'')"
    "currentConfig example_props = Some example_config"
    "resendCalls example_world = []"
    by (simp_all add: example_world_def example_props_def example_message_def)
  have c: "canResend example_props"
    by (simp add: canResend_def isSent_def truthy_bool_def truthy_string_def
          truthy_object_def example_props_def example_message_def js_def)
  have b: "example_b2s [0x41, 0x0D] Hex = js ''41 0d''" by (simp add: example_b2s_def)
  from display_format_overrides_resend_keeps_format
         [of example_props Hex example_b2s example_world] d c b
  show ?thesis by auto
qed

end
